theory Spec2Isabelle
  imports Main "HOL-Library.AList"
begin

section \<open>Data model of EmployeeManager.js\<close>

text \<open>
  The component keeps its data in React state cells. The cells that the roster and the
  Secret Santa handlers read or write are collected in one record, and every handler is a
  function from the state before the call to the state after it. The timer callback of
  the bulk draw is run as part of its handler; the one of \<open>handleSlotSelect\<close> is a function
  of its own, since other handlers can run before it fires. Presentation-only cells
  (animation text, popup contents, search query, the display list \<open>allSlots\<close>) are left
  out.
\<close>

subsection \<open>Strings\<close>

text \<open>
  \<open>String.prototype.trim\<close> and \<open>toLowerCase\<close>, on the ASCII part of a string: the white
  space characters are space, tab, line feed, vertical tab, form feed and carriage return,
  and the letters \<open>A\<close> to \<open>Z\<close> are the ones that change case.
\<close>

definition is_space :: "char \<Rightarrow> bool" where
  "is_space c = (c \<in> set [CHR '' '', CHR 0x09, CHR 0x0A, CHR 0x0B, CHR 0x0C, CHR 0x0D])"

definition trim :: "string \<Rightarrow> string" where
  "trim s = rev (dropWhile is_space (rev (dropWhile is_space s)))"

definition lower_char :: "char \<Rightarrow> char" where
  "lower_char c =
     (let n = (of_char c :: nat) in if 65 \<le> n \<and> n \<le> 90 then char_of (n + 32) else c)"

definition toLowerCase :: "string \<Rightarrow> string" where
  "toLowerCase s = map lower_char s"

subsection \<open>Employees and the component state\<close>

record employee =
  id_emp :: int
  empnid :: string
  name :: string
  interests :: string

text \<open>
  \<open>secretSantaAssignments\<close> is a JavaScript object used as a dictionary from employee id
  to employee id. It is modelled as an association list whose keys are pairwise distinct:
  \<open>obj[k] = v\<close> is \<open>AList.update k v\<close>, \<open>delete obj[k]\<close> is \<open>AList.delete k\<close>, \<open>obj[k]\<close> is
  \<open>map_of obj k\<close>, \<open>Object.keys\<close> is \<open>map fst\<close> and \<open>Object.values\<close> is \<open>map snd\<close>. The order
  in which JavaScript enumerates the keys is not modelled.
\<close>

type_synonym assignments = "(int \<times> int) list"

record duplicate_row =
  row_dup :: nat
  empnid_dup :: string
  name_dup :: string
  reason :: string

record state =
  employees :: "employee list"
  lastId :: int
  secretSantaAssignments :: assignments
  error :: string
  editingId :: "int option"
  formData :: "string \<times> string \<times> string"
  showSlotSelection :: bool
  currentDrawingEmployee :: "employee option"
  availableSlots :: "employee list"
  selectedSlot :: "nat option"
  showImportPopup :: bool
  importDuplicates :: "duplicate_row list"
  importValidCount :: nat
  pendingImportEmployees :: "employee list"

definition emptyForm :: "string \<times> string \<times> string" where
  "emptyForm = ('''', '''', '''')"

text \<open>The initial values of the state cells (the \<open>useState\<close> calls, lines 10-30).\<close>

definition initialState :: state where
  "initialState =
     \<lparr>employees = [], lastId = 0, secretSantaAssignments = [], error = [],
      editingId = None, formData = emptyForm, showSlotSelection = False,
      currentDrawingEmployee = None, availableSlots = [], selectedSlot = None,
      showImportPopup = False, importDuplicates = [], importValidCount = 0,
      pendingImportEmployees = []\<rparr>"

section \<open>Deleting an employee\<close>

text \<open>
  \<open>handleDelete\<close> (lines 249-273). The first argument is the answer of \<open>window.confirm\<close>.
  The \<open>forEach\<close> over \<open>Object.keys(newAssignments)\<close> is a fold over the keys present after
  the first \<open>delete\<close>.
\<close>

definition delete_step :: "int \<Rightarrow> int \<Rightarrow> assignments \<Rightarrow> assignments" where
  "delete_step d empId newAssignments =
     (if map_of newAssignments empId = Some d then AList.delete empId newAssignments
      else newAssignments)"

definition remove_assignments :: "int \<Rightarrow> assignments \<Rightarrow> assignments" where
  "remove_assignments d prev =
     (let newAssignments = AList.delete d prev
      in fold (delete_step d) (map fst newAssignments) newAssignments)"

definition handleDelete :: "bool \<Rightarrow> int \<Rightarrow> state \<Rightarrow> state" where
  "handleDelete confirmed d s =
     (if confirmed then
        let s1 = s\<lparr>employees := filter (\<lambda>emp. id_emp emp \<noteq> d) (employees s),
                   secretSantaAssignments := remove_assignments d (secretSantaAssignments s)\<rparr>
        in if editingId s = Some d then s1\<lparr>formData := emptyForm, editingId := None\<rparr> else s1
      else s)"

section \<open>Loading the roster from localStorage\<close>

text \<open>
  The mount effect (lines 33-90) reads two items of \<open>localStorage\<close>. \<open>savedEmployees\<close> is
  the parsed JSON array, \<open>None\<close> when the item is absent or does not parse (the \<open>catch\<close>
  branch leaves the roster empty). An array element is \<open>None\<close> for \<open>null\<close>, otherwise an
  object whose \<open>id\<close> is an integer and whose other fields are strings; a missing field is
  the falsy value of its type (\<open>0\<close>, the empty string). On such an \<open>id\<close>, \<open>parseInt\<close> is the
  identity. \<open>savedLastId\<close> is \<open>None\<close> when the item is absent or empty, otherwise the value of
  \<open>parseInt(savedLastId, 10) || 0\<close>.
\<close>

record raw_employee =
  raw_id :: int
  raw_empnid :: string
  raw_name :: string
  raw_interests :: string

record storage =
  savedEmployees :: "raw_employee option list option"
  savedLastId :: "int option"

record load_acc =
  uniqueEmployees :: "employee list"
  seenEmpnids :: "string set"
  maxId :: int

definition load_step :: "raw_employee option \<Rightarrow> load_acc \<Rightarrow> load_acc" where
  "load_step entry acc =
     (case entry of
        None \<Rightarrow> acc
      | Some emp \<Rightarrow>
          if raw_id emp \<noteq> 0 \<and> raw_empnid emp \<noteq> [] \<and> raw_name emp \<noteq> []
             \<and> toLowerCase (raw_empnid emp) \<notin> seenEmpnids acc
          then
            let employeeId = raw_id emp
            in acc\<lparr>seenEmpnids := insert (toLowerCase (raw_empnid emp)) (seenEmpnids acc),
                    maxId := (if employeeId > maxId acc then employeeId else maxId acc),
                    uniqueEmployees := uniqueEmployees acc @
                      [\<lparr>id_emp = employeeId,
                        empnid = trim (raw_empnid emp),
                        name = trim (raw_name emp),
                        interests = (if raw_interests emp \<noteq> [] then trim (raw_interests emp)
                                     else [])\<rparr>]\<rparr>
          else acc)"

definition loadEmployees :: "storage \<Rightarrow> state" where
  "loadEmployees st =
     (let initialLastId = (case savedLastId st of None \<Rightarrow> 0 | Some n \<Rightarrow> n);
          s1 = initialState\<lparr>lastId := initialLastId\<rparr>
      in case savedEmployees st of
           None \<Rightarrow> s1
         | Some parsedEmployees \<Rightarrow>
             let acc = fold load_step parsedEmployees
                         \<lparr>uniqueEmployees = [], seenEmpnids = {}, maxId = 0\<rparr>
             in s1\<lparr>employees := sort_key id_emp (uniqueEmployees acc),
                    lastId := (if maxId acc > initialLastId then maxId acc else initialLastId)\<rparr>)"

text \<open>
  The save effects (lines 112-124) run once \<open>isLoaded\<close> is set: the roster is written back
  as it is, and the counter is written when it is not negative.
\<close>

definition to_raw :: "employee \<Rightarrow> raw_employee" where
  "to_raw emp = \<lparr>raw_id = id_emp emp, raw_empnid = empnid emp, raw_name = name emp,
                 raw_interests = interests emp\<rparr>"

definition saveState :: "storage \<Rightarrow> state \<Rightarrow> storage" where
  "saveState st s =
     \<lparr>savedEmployees = Some (map (\<lambda>emp. Some (to_raw emp)) (employees s)),
      savedLastId = (if lastId s \<ge> 0 then Some (lastId s) else savedLastId st)\<rparr>"

section \<open>Creating and updating an employee\<close>

text \<open>
  \<open>validateForm\<close> (lines 137-173) returns \<open>None\<close> for \<open>true\<close> and the message it passes to
  \<open>setError\<close> for \<open>false\<close>. \<open>formData\<close> holds the fields \<open>empnid\<close>, \<open>name\<close>, \<open>interests\<close>.
\<close>

definition empnidExists :: "string \<Rightarrow> employee list \<Rightarrow> bool" where
  "empnidExists e emps = list_ex (\<lambda>emp. toLowerCase (empnid emp) = toLowerCase e) emps"

definition empnidExistsOther :: "string \<Rightarrow> int \<Rightarrow> employee list \<Rightarrow> bool" where
  "empnidExistsOther e eid emps =
     list_ex (\<lambda>emp. toLowerCase (empnid emp) = toLowerCase e \<and> id_emp emp \<noteq> eid) emps"

definition validateForm :: "state \<Rightarrow> string option" where
  "validateForm s =
     (let trimmedEmpnid = trim (fst (formData s));
          trimmedName = trim (fst (snd (formData s)))
      in if trimmedEmpnid = [] then Some ''Employee ID is required''
         else if trimmedName = [] then Some ''Employee Name is required''
         else case editingId s of
                None \<Rightarrow>
                  if empnidExists trimmedEmpnid (employees s)
                  then Some ''Employee ID already exists. Please use a unique ID.''
                  else None
              | Some eid \<Rightarrow>
                  if empnidExistsOther trimmedEmpnid eid (employees s)
                  then Some ''Employee ID already exists. Please use a unique ID.''
                  else None)"

definition formEmployee :: "int \<Rightarrow> state \<Rightarrow> employee" where
  "formEmployee i s =
     \<lparr>id_emp = i,
      empnid = trim (fst (formData s)),
      name = trim (fst (snd (formData s))),
      interests = (if snd (snd (formData s)) \<noteq> [] then trim (snd (snd (formData s))) else [])\<rparr>"

definition handleCreate :: "state \<Rightarrow> state" where
  "handleCreate s =
     (case validateForm s of
        Some msg \<Rightarrow> s\<lparr>error := msg\<rparr>
      | None \<Rightarrow>
          let nextId = lastId s + 1;
              newEmployee = formEmployee nextId s
          in if empnidExists (empnid newEmployee) (employees s)
             then s\<lparr>error := ''Employee ID already exists. Please use a unique ID.''\<rparr>
             else s\<lparr>lastId := nextId, employees := employees s @ [newEmployee],
                    formData := emptyForm, error := []\<rparr>)"

definition handleUpdate :: "state \<Rightarrow> state" where
  "handleUpdate s =
     (case validateForm s of
        Some msg \<Rightarrow> s\<lparr>error := msg\<rparr>
      | None \<Rightarrow>
          (case editingId s of
             None \<Rightarrow> s\<lparr>error := ''Employee not found''\<rparr>
           | Some eid \<Rightarrow>
               (case find (\<lambda>emp. id_emp emp = eid) (employees s) of
                  None \<Rightarrow> s\<lparr>error := ''Employee not found''\<rparr>
                | Some employeeToUpdate \<Rightarrow>
                    let updatedEmployee = formEmployee (id_emp employeeToUpdate) s
                    in if empnidExistsOther (empnid updatedEmployee) eid (employees s)
                       then s\<lparr>error := ''Employee ID already exists. Please use a unique ID.''\<rparr>
                       else s\<lparr>employees := map (\<lambda>emp. if id_emp emp = eid then updatedEmployee
                                                          else emp) (employees s),
                              formData := emptyForm, editingId := None, error := []\<rparr>)))"

section \<open>Importing a spreadsheet\<close>

text \<open>
  \<open>handleExcelImport\<close> from line 387 on, after the sheet has been read into \<open>jsonData\<close>
  (a list of rows, row 0 being the header) and the header search has found the columns:
  \<open>empIdIndex\<close> and \<open>empNameIndex\<close> are the positions of the identifier and name columns,
  \<open>interestsIndex\<close> is \<open>None\<close> for \<open>-1\<close>. A cell is \<open>None\<close> when it is empty and a text
  otherwise (numeric cells are not modelled); reading past the end of a row gives
  \<open>undefined\<close>, which is falsy like an empty cell.
\<close>

type_synonym row = "string option list"

definition cell_text :: "row \<Rightarrow> nat \<Rightarrow> string" where
  "cell_text row idx =
     (if idx < length row
      then (case row ! idx of None \<Rightarrow> [] | Some t \<Rightarrow> if t \<noteq> [] then trim t else [])
      else [])"

record import_acc =
  newEmployees :: "employee list"
  duplicates :: "duplicate_row list"
  seenInFile :: "string set"
  currentLastId :: int

definition import_row ::
  "string set \<Rightarrow> nat \<Rightarrow> nat \<Rightarrow> nat option \<Rightarrow> nat \<Rightarrow> row \<Rightarrow> import_acc \<Rightarrow> import_acc" where
  "import_row existingEmpnids empIdIndex empNameIndex interestsIndex i row acc =
     (if row = [] then acc
      else
        let empnid_v = cell_text row empIdIndex;
            name_v = cell_text row empNameIndex;
            interests_v = (case interestsIndex of None \<Rightarrow> [] | Some k \<Rightarrow> cell_text row k)
        in if empnid_v = [] \<or> name_v = [] then acc
           else
             let empnidLower = toLowerCase empnid_v
             in if empnidLower \<in> seenInFile acc
                then acc\<lparr>duplicates := duplicates acc @
                       [\<lparr>row_dup = i + 1, empnid_dup = empnid_v, name_dup = name_v,
                         reason = ''Duplicate Employee ID in Excel file''\<rparr>]\<rparr>
                else if empnidLower \<in> existingEmpnids
                then acc\<lparr>duplicates := duplicates acc @
                       [\<lparr>row_dup = i + 1, empnid_dup = empnid_v, name_dup = name_v,
                         reason = ''Employee ID already exists in system''\<rparr>]\<rparr>
                else acc\<lparr>seenInFile := insert empnidLower (seenInFile acc),
                         currentLastId := currentLastId acc + 1,
                         newEmployees := newEmployees acc @
                           [\<lparr>id_emp = currentLastId acc + 1, empnid = empnid_v, name = name_v,
                             interests = interests_v\<rparr>]\<rparr>)"

text \<open>The \<open>for\<close> loop of lines 394-439, from row index \<open>i\<close> on.\<close>

fun import_loop ::
  "string set \<Rightarrow> nat \<Rightarrow> nat \<Rightarrow> nat option \<Rightarrow> nat \<Rightarrow> row list \<Rightarrow> import_acc \<Rightarrow> import_acc" where
  "import_loop ex a b c i [] acc = acc"
| "import_loop ex a b c i (row # rows) acc =
     import_loop ex a b c (Suc i) rows (import_row ex a b c i row acc)"

definition import_rows ::
  "nat \<Rightarrow> nat \<Rightarrow> nat option \<Rightarrow> row list \<Rightarrow> state \<Rightarrow> import_acc" where
  "import_rows empIdIndex empNameIndex interestsIndex jsonData s =
     import_loop (set (map (\<lambda>emp. toLowerCase (empnid emp)) (employees s)))
       empIdIndex empNameIndex interestsIndex 1 (drop 1 jsonData)
       \<lparr>newEmployees = [], duplicates = [], seenInFile = {}, currentLastId = lastId s\<rparr>"

definition handleExcelImport ::
  "nat \<Rightarrow> nat \<Rightarrow> nat option \<Rightarrow> row list \<Rightarrow> state \<Rightarrow> state" where
  "handleExcelImport empIdIndex empNameIndex interestsIndex jsonData s =
     (if length jsonData < 2
      then s\<lparr>error := ''Excel file must have at least a header row and one data row.''\<rparr>
      else
        let acc = import_rows empIdIndex empNameIndex interestsIndex jsonData s
        in if duplicates acc \<noteq> []
           then s\<lparr>importDuplicates := duplicates acc,
                  importValidCount := length (newEmployees acc),
                  pendingImportEmployees := newEmployees acc,
                  lastId := currentLastId acc,
                  showImportPopup := True\<rparr>
           else if newEmployees acc \<noteq> []
           then s\<lparr>lastId := currentLastId acc,
                  employees := employees s @ newEmployees acc,
                  error := []\<rparr>
           else s\<lparr>error := ''No valid employees found in the Excel file.''\<rparr>)"

text \<open>\<open>handleImportConfirm\<close> (lines 472-482).\<close>

definition handleImportConfirm :: "state \<Rightarrow> state" where
  "handleImportConfirm s =
     (let s1 = (if pendingImportEmployees s \<noteq> []
                then s\<lparr>employees := employees s @ pendingImportEmployees s, error := []\<rparr>
                else s)
      in s1\<lparr>showImportPopup := False, importDuplicates := [], importValidCount := 0,
             pendingImportEmployees := []\<rparr>)"

text \<open>
  The reconciliation rule in the words of the specification, for one row whose identifier
  is \<open>e\<close>: compare case-insensitively with the identifiers accepted earlier in the batch,
  then with the roster; the first collision gives the reason, no collision accepts.
\<close>

definition spec_classify :: "employee list \<Rightarrow> employee list \<Rightarrow> string \<Rightarrow> string option" where
  "spec_classify roster accepted e =
     (if list_ex (\<lambda>emp. toLowerCase (empnid emp) = toLowerCase e) accepted
      then Some ''Duplicate Employee ID in Excel file''
      else if list_ex (\<lambda>emp. toLowerCase (empnid emp) = toLowerCase e) roster
      then Some ''Employee ID already exists in system''
      else None)"

section \<open>Drawing all assignments at once\<close>

text \<open>
  \<open>Math.floor(Math.random() * n)\<close> is some index below \<open>n\<close>. The random source is a
  function \<open>rng\<close> from the number of the call to a natural number, and the index drawn by
  call \<open>k\<close> is \<open>rng k mod n\<close>; every index below \<open>n\<close> is reached by some source.
\<close>

text \<open>The Fisher-Yates loop (lines 510-513 and 548-551), from index \<open>i\<close> down to 1.\<close>

fun shuffle_loop :: "(nat \<Rightarrow> nat) \<Rightarrow> nat \<Rightarrow> 'a list \<Rightarrow> nat \<Rightarrow> 'a list \<times> nat" where
  "shuffle_loop rng k shuffled 0 = (shuffled, k)"
| "shuffle_loop rng k shuffled (Suc i) =
     (let j = rng k mod (Suc i + 1)
      in shuffle_loop rng (Suc k)
           (shuffled[Suc i := shuffled ! j, j := shuffled ! Suc i]) i)"

definition fisher_yates :: "(nat \<Rightarrow> nat) \<Rightarrow> nat \<Rightarrow> 'a list \<Rightarrow> 'a list \<times> nat" where
  "fisher_yates rng k shuffled = shuffle_loop rng k shuffled (length shuffled - 1)"

text \<open>The inner \<open>while\<close> of lines 529-532: the index finally held by \<open>assignedIndex\<close>.\<close>

function scan_index :: "employee list \<Rightarrow> employee list \<Rightarrow> nat \<Rightarrow> nat \<Rightarrow> nat \<Rightarrow> nat" where
  "scan_index emps shuffled i assignedIndex retries =
     (if id_emp (emps ! i) = id_emp (shuffled ! assignedIndex) \<and> retries < length emps
      then scan_index emps shuffled i ((assignedIndex + 1) mod length emps) (retries + 1)
      else assignedIndex)"
  by pat_completeness auto
termination
  by (relation "measure (\<lambda>(emps, shuffled, i, assignedIndex, retries). length emps - retries)")
    auto

text \<open>
  The \<open>for\<close> loop of lines 524-540 from position \<open>i\<close> on; \<open>None\<close> is the \<open>break\<close> with
  \<open>valid = false\<close>.
\<close>

function assign_loop ::
  "employee list \<Rightarrow> employee list \<Rightarrow> nat \<Rightarrow> assignments \<Rightarrow> assignments option" where
  "assign_loop emps shuffled i tempAssignments =
     (if i < length emps then
        let assignedIndex = scan_index emps shuffled i i 0
        in if id_emp (emps ! i) = id_emp (shuffled ! assignedIndex) then None
           else assign_loop emps shuffled (i + 1)
                  (AList.update (id_emp (emps ! i)) (id_emp (shuffled ! assignedIndex))
                     tempAssignments)
      else Some tempAssignments)"
  by pat_completeness auto
termination
  by (relation "measure (\<lambda>(emps, shuffled, i, tempAssignments). length emps - i)") auto

definition maxAttempts :: nat where
  "maxAttempts = 100"

text \<open>The \<open>while (attempts < maxAttempts)\<close> loop; the result is \<open>finalAssignments\<close>.\<close>

function attempt_loop ::
  "(nat \<Rightarrow> nat) \<Rightarrow> nat \<Rightarrow> employee list \<Rightarrow> employee list \<Rightarrow> nat \<Rightarrow> assignments" where
  "attempt_loop rng k emps shuffled attempts =
     (if attempts < maxAttempts then
        (case assign_loop emps shuffled 0 [] of
           Some tempAssignments \<Rightarrow> tempAssignments
         | None \<Rightarrow>
             attempt_loop rng (snd (fisher_yates rng k shuffled)) emps
               (fst (fisher_yates rng k shuffled)) (attempts + 1))
      else [])"
  by pat_completeness auto
termination
  by (relation "measure (\<lambda>(rng, k, emps, shuffled, attempts). maxAttempts - attempts)") auto

declare scan_index.simps [simp del]
declare assign_loop.simps [simp del]
declare attempt_loop.simps [simp del]

definition handleSecretSantaDraw :: "(nat \<Rightarrow> nat) \<Rightarrow> state \<Rightarrow> state" where
  "handleSecretSantaDraw rng s =
     (if length (employees s) < 2
      then s\<lparr>error := ''Need at least 2 employees for Secret Santa!''\<rparr>
      else
        let shuffled = fst (fisher_yates rng 0 (employees s));
            k = snd (fisher_yates rng 0 (employees s));
            finalAssignments = attempt_loop rng k (employees s) shuffled 0
        in if finalAssignments = []
           then s\<lparr>error := ''Unable to create valid Secret Santa assignments. Please try again.''\<rparr>
           else s\<lparr>secretSantaAssignments := finalAssignments, error := []\<rparr>)"

section \<open>Drawing for one employee\<close>

text \<open>\<open>handleIndividualDraw\<close> (lines 582-618).\<close>

definition availableEmployees :: "int \<Rightarrow> state \<Rightarrow> employee list" where
  "availableEmployees employeeId s =
     filter (\<lambda>emp. id_emp emp \<noteq> employeeId
                   \<and> id_emp emp \<notin> set (map snd (secretSantaAssignments s)))
       (employees s)"

definition handleIndividualDraw :: "int \<Rightarrow> state \<Rightarrow> state" where
  "handleIndividualDraw employeeId s =
     (if availableEmployees employeeId s = []
      then s\<lparr>error :=
             ''No available employees to assign! All employees may already be assigned.''\<rparr>
      else s\<lparr>currentDrawingEmployee := find (\<lambda>e. id_emp e = employeeId) (employees s),
             availableSlots := availableEmployees employeeId s,
             selectedSlot := None,
             showSlotSelection := True,
             error := []\<rparr>)"

text \<open>
  \<open>handleSlotSelect\<close> (lines 621-650) has two parts. The call itself stores the slot
  index and picks \<open>assignedEmployee\<close>; it returns the new state and, unless it returned
  early, the two values its timer callback closes over: \<open>currentDrawingEmployee\<close> and
  \<open>assignedEmployee\<close> (\<open>None\<close> for \<open>null\<close> and \<open>undefined\<close>). \<open>r\<close> is the random number of
  this call.
\<close>

definition handleSlotSelect ::
  "nat \<Rightarrow> nat \<Rightarrow> state \<Rightarrow> state \<times> (employee option \<times> employee option) option" where
  "handleSlotSelect slotIndex r s =
     (if selectedSlot s \<noteq> None then (s, None)
      else
        let randomIndex = (if availableSlots s = [] then 0 else r mod length (availableSlots s));
            assignedEmployee = (if randomIndex < length (availableSlots s)
                                then Some (availableSlots s ! randomIndex) else None)
        in (s\<lparr>selectedSlot := Some slotIndex\<rparr>,
            Some (currentDrawingEmployee s, assignedEmployee)))"

text \<open>
  The timer callback of lines 631-649, run 800 ms later in the state of that moment.
  Reading \<open>.id\<close> of \<open>null\<close> or \<open>undefined\<close> throws a \<open>TypeError\<close>: the result is \<open>None\<close>.
\<close>

definition slotSelectTimeout :: "employee option \<times> employee option \<Rightarrow> state \<Rightarrow> state option" where
  "slotSelectTimeout closure s =
     (case closure of
        (Some drawer, Some assignedEmployee) \<Rightarrow>
          Some (s\<lparr>secretSantaAssignments :=
                     AList.update (id_emp drawer) (id_emp assignedEmployee)
                       (secretSantaAssignments s),
                   showSlotSelection := False,
                   currentDrawingEmployee := None,
                   availableSlots := [],
                   selectedSlot := None\<rparr>)
      | _ \<Rightarrow> None)"

text \<open>A slot click followed by its timer callback, with nothing in between.\<close>

definition selectAndCommit :: "nat \<Rightarrow> nat \<Rightarrow> state \<Rightarrow> state option" where
  "selectAndCommit slotIndex r s =
     (case handleSlotSelect slotIndex r s of
        (s1, None) \<Rightarrow> Some s1
      | (s1, Some closure) \<Rightarrow> slotSelectTimeout closure s1)"

text \<open>
  A slot click, a confirmed \<open>handleDelete\<close> of employee \<open>d\<close> during the 800 ms that follow,
  then the timer callback.
\<close>

definition selectDeleteCommit :: "nat \<Rightarrow> nat \<Rightarrow> int \<Rightarrow> state \<Rightarrow> state option" where
  "selectDeleteCommit slotIndex r d s =
     (case handleSlotSelect slotIndex r s of
        (s1, None) \<Rightarrow> Some (handleDelete True d s1)
      | (s1, Some closure) \<Rightarrow> slotSelectTimeout closure (handleDelete True d s1))"

text \<open>\<open>handleCloseSlotSelection\<close> (lines 653-659); it clears no timer.\<close>

definition handleCloseSlotSelection :: "state \<Rightarrow> state" where
  "handleCloseSlotSelection s =
     s\<lparr>showSlotSelection := False, currentDrawingEmployee := None, availableSlots := [],
       selectedSlot := None\<rparr>"

text \<open>
  The events of the individual draw, in any order: the Draw button of an employee, a click
  on a slot (slot index and random number), the close button of the overlay, and the
  firing of the oldest timer that is still waiting. A configuration is the state together
  with the values the waiting timer callbacks close over, oldest first; all timers have
  the same delay, so they fire in the order of their clicks. The Draw button is disabled
  only while the bulk draw animates (lines 1096-1100), so it is always available here.
  The slot cards exist only while the overlay is rendered, which needs
  \<open>showSlotSelection && currentDrawingEmployee\<close> (line 721); a slot click without overlay
  does not happen and is modelled as no change. \<open>None\<close> is a \<open>TypeError\<close> in a timer
  callback.
\<close>

datatype event = Draw int | SlotClick nat nat | CloseSlots | TimerFires

type_synonym closure = "employee option \<times> employee option"

fun step :: "event \<Rightarrow> state \<times> closure list \<Rightarrow> (state \<times> closure list) option" where
  "step (Draw employeeId) (s, timers) = Some (handleIndividualDraw employeeId s, timers)"
| "step (SlotClick slotIndex r) (s, timers) =
     (if showSlotSelection s \<and> currentDrawingEmployee s \<noteq> None
      then (case handleSlotSelect slotIndex r s of
              (s1, None) \<Rightarrow> Some (s1, timers)
            | (s1, Some c) \<Rightarrow> Some (s1, timers @ [c]))
      else Some (s, timers))"
| "step CloseSlots (s, timers) = Some (handleCloseSlotSelection s, timers)"
| "step TimerFires (s, []) = Some (s, [])"
| "step TimerFires (s, c # timers) =
     (case slotSelectTimeout c s of
        None \<Rightarrow> None
      | Some s' \<Rightarrow> Some (s', timers))"

fun run_events ::
  "event list \<Rightarrow> state \<times> closure list \<Rightarrow> (state \<times> closure list) option" where
  "run_events [] c = Some c"
| "run_events (ev # evs) c =
     (case step ev c of
        None \<Rightarrow> None
      | Some c' \<Rightarrow> run_events evs c')"

text \<open>
  Draws that do not overlap: each draw (employee, slot index, random number) is the Draw
  button, the slot click and the firing of its timer, before the next draw starts.
\<close>

definition sequential_draws :: "(int \<times> nat \<times> nat) list \<Rightarrow> event list" where
  "sequential_draws ds =
     concat (map (\<lambda>(employeeId, slotIndex, r).
                    [Draw employeeId, SlotClick slotIndex r, TimerFires]) ds)"

text \<open>
  \<open>draw_inv\<close>: every waiting timer closes over a drawer and a chosen employee with
  different ids, and while an employee is drawing, the pool on screen does not hold that
  employee and is not empty when the overlay is open.
\<close>

definition closure_ok :: "closure \<Rightarrow> bool" where
  "closure_ok c \<longleftrightarrow>
     (case c of
        (Some drawer, Some assignedEmployee) \<Rightarrow> id_emp drawer \<noteq> id_emp assignedEmployee
      | _ \<Rightarrow> False)"

definition draw_inv :: "state \<times> closure list \<Rightarrow> bool" where
  "draw_inv c \<longleftrightarrow>
     list_all closure_ok (snd c)
     \<and> (\<forall>drawer. currentDrawingEmployee (fst c) = Some drawer \<longrightarrow>
            (showSlotSelection (fst c) \<longrightarrow> availableSlots (fst c) \<noteq> [])
            \<and> list_all (\<lambda>emp. id_emp emp \<noteq> id_emp drawer) (availableSlots (fst c)))"

text \<open>
  \<open>no_pending\<close>: the slot overlay is not on screen, that is no individual draw is waiting
  for its slot click.
\<close>

definition no_pending :: "state \<Rightarrow> bool" where
  "no_pending s \<longleftrightarrow> \<not> (showSlotSelection s \<and> currentDrawingEmployee s \<noteq> None)"

text \<open>
  \<open>drawn_ok m0 m\<close>: every entry of the map \<open>m\<close> that is not an entry of the starting map
  \<open>m0\<close> has a target different from its key, and no other key of \<open>m\<close> has the same target.
\<close>

definition drawn_ok :: "assignments \<Rightarrow> assignments \<Rightarrow> bool" where
  "drawn_ok m0 m \<longleftrightarrow>
     (\<forall>p \<in> set m. p \<in> set m0
        \<or> (snd p \<noteq> fst p \<and> (\<forall>q \<in> set m. snd q = snd p \<longrightarrow> fst q = fst p)))"

text \<open>
  \<open>clean_employee\<close>: identifier and name are non-empty and carry no leading or trailing
  white space.
\<close>

definition clean_employee :: "employee \<Rightarrow> bool" where
  "clean_employee emp \<longleftrightarrow>
     empnid emp \<noteq> [] \<and> name emp \<noteq> []
     \<and> trim (empnid emp) = empnid emp \<and> trim (name emp) = name emp"

text \<open>
  \<open>trimmed_entry\<close>: a stored array element whose identifier and name carry no leading or
  trailing white space, as every element written by the save effect of a clean roster
  does. \<open>load_inv\<close> collects what the loop of the load keeps true on such input.
\<close>

definition trimmed_entry :: "raw_employee option \<Rightarrow> bool" where
  "trimmed_entry entry \<longleftrightarrow>
     (case entry of
        None \<Rightarrow> True
      | Some emp \<Rightarrow> trim (raw_empnid emp) = raw_empnid emp \<and> trim (raw_name emp) = raw_name emp)"

definition loaded_employee :: "employee \<Rightarrow> bool" where
  "loaded_employee emp \<longleftrightarrow>
     id_emp emp \<noteq> 0 \<and> clean_employee emp \<and> trim (interests emp) = interests emp"

definition load_inv :: "load_acc \<Rightarrow> bool" where
  "load_inv acc \<longleftrightarrow>
     list_all loaded_employee (uniqueEmployees acc)
     \<and> seenEmpnids acc = set (map (\<lambda>emp. toLowerCase (empnid emp)) (uniqueEmployees acc))
     \<and> distinct (map (\<lambda>emp. toLowerCase (empnid emp)) (uniqueEmployees acc))
     \<and> 0 \<le> maxId acc
     \<and> list_all (\<lambda>emp. id_emp emp \<le> maxId acc) (uniqueEmployees acc)
     \<and> (maxId acc = 0 \<or> maxId acc \<in> set (map id_emp (uniqueEmployees acc)))"

section \<open>Properties of deletion\<close>

lemma map_of_Some_distinct:
  "distinct (map fst m) \<Longrightarrow> map_of m k = Some v \<longleftrightarrow> (k, v) \<in> set m"
  by (auto intro: map_of_is_SomeI dest: map_of_SomeD)

lemma delete_filter_fst: "AList.delete k m = filter (\<lambda>p. fst p \<noteq> k) m"
  by (induction m) (auto simp: AList.delete_eq)

lemma delete_step_filter:
  assumes "distinct (map fst m)"
  shows "delete_step d k m = filter (\<lambda>p. \<not> (fst p = k \<and> snd p = d)) m"
proof (cases "(k, d) \<in> set m")
  case True
  have "filter (\<lambda>p. fst p \<noteq> k) m = filter (\<lambda>p. \<not> (fst p = k \<and> snd p = d)) m"
  proof (rule filter_cong [OF refl])
    fix p assume p: "p \<in> set m"
    show "(fst p \<noteq> k) = (\<not> (fst p = k \<and> snd p = d))"
    proof (cases "fst p = k")
      case False
      then show ?thesis by simp
    next
      case k: True
      from assms p True k have "p = (k, d)"
        by (metis eq_key_imp_eq_value prod.collapse)
      then show ?thesis by simp
    qed
  qed
  with True assms show ?thesis
    by (simp add: delete_step_def map_of_Some_distinct delete_filter_fst)
next
  case False
  then have "filter (\<lambda>p. \<not> (fst p = k \<and> snd p = d)) m = m"
    by (auto simp: filter_id_conv)
  with False assms show ?thesis
    by (simp add: delete_step_def map_of_Some_distinct)
qed

lemma fold_delete_step:
  "distinct (map fst m) \<Longrightarrow>
   fold (delete_step d) ks m = filter (\<lambda>p. \<not> (fst p \<in> set ks \<and> snd p = d)) m"
proof (induction ks arbitrary: m)
  case Nil
  then show ?case by simp
next
  case (Cons k ks)
  let ?m1 = "filter (\<lambda>p. \<not> (fst p = k \<and> snd p = d)) m"
  have d1: "distinct (map fst ?m1)"
    using Cons.prems by (rule distinct_map_filter)
  have "fold (delete_step d) (k # ks) m = fold (delete_step d) ks ?m1"
    using Cons.prems by (simp add: delete_step_filter)
  also have "\<dots> = filter (\<lambda>p. \<not> (fst p \<in> set ks \<and> snd p = d)) ?m1"
    using d1 by (rule Cons.IH)
  also have "\<dots> = filter (\<lambda>p. \<not> (fst p \<in> set (k # ks) \<and> snd p = d)) m"
    by (auto intro: filter_cong)
  finally show ?case .
qed

lemma remove_assignments_filter:
  assumes "distinct (map fst m)"
  shows "remove_assignments d m = filter (\<lambda>p. fst p \<noteq> d \<and> snd p \<noteq> d) m"
proof -
  let ?m1 = "AList.delete d m"
  have d1: "distinct (map fst ?m1)"
    using assms by (rule distinct_delete)
  have "remove_assignments d m
        = filter (\<lambda>p. \<not> (fst p \<in> set (map fst ?m1) \<and> snd p = d)) ?m1"
    using d1 by (simp add: remove_assignments_def Let_def fold_delete_step)
  also have "\<dots> = filter (\<lambda>p. snd p \<noteq> d) ?m1"
    by (rule filter_cong) auto
  also have "\<dots> = filter (\<lambda>p. fst p \<noteq> d \<and> snd p \<noteq> d) m"
    by (auto simp: delete_filter_fst intro: filter_cong)
  finally show ?thesis .
qed

text \<open>
  Claim C7. For every prior assignment map (a dictionary, so its keys are distinct),
  deleting the member with id \<open>d\<close> leaves exactly the entries whose key and whose value
  both differ from \<open>d\<close>: the entry keyed by \<open>d\<close> and every entry with value \<open>d\<close> are gone,
  all other entries stay, and \<open>d\<close> occurs neither as a key nor as a value afterwards.
\<close>

theorem handleDelete_removes_key_and_value:
  assumes "distinct (map fst (secretSantaAssignments s))"
  shows "set (secretSantaAssignments (handleDelete True d s))
           = {p \<in> set (secretSantaAssignments s). fst p \<noteq> d \<and> snd p \<noteq> d}
         \<and> d \<notin> fst ` set (secretSantaAssignments (handleDelete True d s))
         \<and> d \<notin> snd ` set (secretSantaAssignments (handleDelete True d s))
         \<and> distinct (map fst (secretSantaAssignments (handleDelete True d s)))"
proof -
  have eq: "secretSantaAssignments (handleDelete True d s)
            = filter (\<lambda>p. fst p \<noteq> d \<and> snd p \<noteq> d) (secretSantaAssignments s)"
    using assms by (simp add: handleDelete_def Let_def remove_assignments_filter)
  show ?thesis
    unfolding eq using assms by (auto simp: distinct_map_filter)
qed

theorem handleDelete_removes_key_and_value_witness:
  "distinct (map fst (secretSantaAssignments
      (initialState\<lparr>secretSantaAssignments := [(1, 2), (2, 3), (3, 1)]\<rparr>)))
   \<and> 2 \<notin> fst ` set (secretSantaAssignments (handleDelete True 2
      (initialState\<lparr>secretSantaAssignments := [(1, 2), (2, 3), (3, 1)]\<rparr>)))
   \<and> 2 \<notin> snd ` set (secretSantaAssignments (handleDelete True 2
      (initialState\<lparr>secretSantaAssignments := [(1, 2), (2, 3), (3, 1)]\<rparr>)))"
proof -
  let ?s = "initialState\<lparr>secretSantaAssignments := [(1, 2), (2, 3), (3, 1)]\<rparr>"
  have h: "distinct (map fst (secretSantaAssignments ?s))"
    by simp
  from handleDelete_removes_key_and_value [OF h, of 2] h show ?thesis
    by blast
qed

section \<open>Properties of the bulk draw\<close>

lemma fisher_yates_two:
  "fst (fisher_yates rng k [a, b]) = [a, b] \<or> fst (fisher_yates rng k [a, b]) = [b, a]"
proof (cases "rng k mod Suc (Suc 0)")
  case 0
  then show ?thesis
    by (simp add: fisher_yates_def)
next
  case (Suc n)
  moreover have "rng k mod Suc (Suc 0) < Suc (Suc 0)"
    by (rule mod_less_divisor) simp
  ultimately have "rng k mod Suc (Suc 0) = Suc 0"
    by arith
  then show ?thesis
    by (simp add: fisher_yates_def)
qed

lemma scan_index_differ:
  "id_emp (emps ! i) \<noteq> id_emp (shuffled ! a) \<Longrightarrow> scan_index emps shuffled i a r = a"
  by (subst scan_index.simps) simp

lemma scan_index_same:
  "id_emp (emps ! i) = id_emp (shuffled ! a) \<Longrightarrow> r < length emps \<Longrightarrow>
   scan_index emps shuffled i a r = scan_index emps shuffled i ((a + 1) mod length emps) (r + 1)"
  by (subst scan_index.simps) simp

lemma assign_loop_done:
  "length emps \<le> i \<Longrightarrow> assign_loop emps shuffled i t = Some t"
  by (subst assign_loop.simps) simp

lemma assign_loop_step:
  "i < length emps \<Longrightarrow>
   assign_loop emps shuffled i t =
     (if id_emp (emps ! i) = id_emp (shuffled ! scan_index emps shuffled i i 0) then None
      else assign_loop emps shuffled (i + 1)
             (AList.update (id_emp (emps ! i))
                (id_emp (shuffled ! scan_index emps shuffled i i 0)) t))"
  by (subst assign_loop.simps) (simp add: Let_def)

lemma assign_two_same:
  assumes "id_emp a \<noteq> id_emp b"
  shows "assign_loop [a, b] [a, b] 0 [] = Some [(id_emp a, id_emp b), (id_emp b, id_emp a)]"
proof -
  have s0: "scan_index [a, b] [a, b] 0 0 0 = Suc 0"
    using assms by (simp add: scan_index_same scan_index_differ)
  have s1: "scan_index [a, b] [a, b] (Suc 0) (Suc 0) 0 = 0"
    using assms by (simp add: scan_index_same scan_index_differ)
  show ?thesis
    using assms by (simp add: assign_loop_step assign_loop_done s0 s1)
qed

lemma assign_two_swapped:
  assumes "id_emp a \<noteq> id_emp b"
  shows "assign_loop [a, b] [b, a] 0 [] = Some [(id_emp a, id_emp b), (id_emp b, id_emp a)]"
proof -
  have s0: "scan_index [a, b] [b, a] 0 0 0 = 0"
    using assms by (simp add: scan_index_differ)
  have s1: "scan_index [a, b] [b, a] (Suc 0) (Suc 0) 0 = Suc 0"
    using assms by (simp add: scan_index_differ)
  show ?thesis
    using assms by (simp add: assign_loop_step assign_loop_done s0 s1)
qed

text \<open>
  Claim C5. For a roster of exactly two members \<open>a\<close> and \<open>b\<close> (with different ids), the bulk
  draw succeeds whatever the random source is, and the assignment map is \<open>a \<rightarrow> b\<close>,
  \<open>b \<rightarrow> a\<close>.
\<close>

theorem bulk_draw_two_members:
  assumes "employees s = [a, b]" and "id_emp a \<noteq> id_emp b"
  shows "secretSantaAssignments (handleSecretSantaDraw rng s)
           = [(id_emp a, id_emp b), (id_emp b, id_emp a)]
         \<and> error (handleSecretSantaDraw rng s) = []"
proof -
  let ?sh = "fst (fisher_yates rng 0 [a, b])"
  have "assign_loop [a, b] ?sh 0 [] = Some [(id_emp a, id_emp b), (id_emp b, id_emp a)]"
    using fisher_yates_two [of rng 0 a b] assms(2)
    by (auto simp: assign_two_same assign_two_swapped)
  then have "attempt_loop rng (snd (fisher_yates rng 0 [a, b])) [a, b] ?sh 0
             = [(id_emp a, id_emp b), (id_emp b, id_emp a)]"
    by (subst attempt_loop.simps) (simp add: maxAttempts_def)
  then show ?thesis
    using assms(1) by (simp add: handleSecretSantaDraw_def Let_def)
qed

theorem bulk_draw_two_members_witness:
  "employees (initialState\<lparr>employees :=
       [\<lparr>id_emp = 1, empnid = ''E1'', name = ''A'', interests = []\<rparr>,
        \<lparr>id_emp = 2, empnid = ''E2'', name = ''B'', interests = []\<rparr>]\<rparr>)
     = [\<lparr>id_emp = 1, empnid = ''E1'', name = ''A'', interests = []\<rparr>,
        \<lparr>id_emp = 2, empnid = ''E2'', name = ''B'', interests = []\<rparr>]
   \<and> secretSantaAssignments (handleSecretSantaDraw (\<lambda>k. 0) (initialState\<lparr>employees :=
       [\<lparr>id_emp = 1, empnid = ''E1'', name = ''A'', interests = []\<rparr>,
        \<lparr>id_emp = 2, empnid = ''E2'', name = ''B'', interests = []\<rparr>]\<rparr>))
     = [(1, 2), (2, 1)]"
proof -
  let ?a = "\<lparr>id_emp = 1, empnid = ''E1'', name = ''A'', interests = []\<rparr>"
  let ?b = "\<lparr>id_emp = 2, empnid = ''E2'', name = ''B'', interests = []\<rparr>"
  let ?s = "initialState\<lparr>employees := [?a, ?b]\<rparr>"
  have h1: "employees ?s = [?a, ?b]"
    by simp
  have h2: "id_emp ?a \<noteq> id_emp ?b"
    by simp
  from bulk_draw_two_members [OF h1 h2, of "\<lambda>k. 0"] h1 show ?thesis
    by simp
qed

lemma shuffle_loop_perm:
  "i < length xs \<Longrightarrow>
   length (fst (shuffle_loop rng k xs i)) = length xs
   \<and> set (fst (shuffle_loop rng k xs i)) = set xs
   \<and> distinct (map f (fst (shuffle_loop rng k xs i))) = distinct (map f xs)"
proof (induction i arbitrary: k xs)
  case 0
  then show ?case by simp
next
  case (Suc i)
  let ?j = "rng k mod (Suc i + 1)"
  let ?ys = "xs[Suc i := xs ! ?j, ?j := xs ! Suc i]"
  have "?j < Suc i + 1"
    by (rule mod_less_divisor) simp
  with Suc.prems have j: "?j < length xs"
    by arith
  have len: "length ?ys = length xs"
    by simp
  have st: "set ?ys = set xs"
    using Suc.prems j by simp
  have sw: "distinct ((map f xs)[Suc i := map f xs ! ?j, ?j := map f xs ! Suc i])
            = distinct (map f xs)"
    using Suc.prems j by (intro distinct_swap) simp_all
  have "map f ?ys = (map f xs)[Suc i := map f xs ! ?j, ?j := map f xs ! Suc i]"
    using Suc.prems j by (simp add: map_update)
  with sw have di: "distinct (map f ?ys) = distinct (map f xs)"
    by (simp only:)
  have "i < length ?ys"
    using Suc.prems by simp
  from Suc.IH [OF this, of "Suc k"] len st di show ?case
    by (simp add: Let_def)
qed

lemma fisher_yates_perm:
  assumes "xs \<noteq> []"
  shows "length (fst (fisher_yates rng k xs)) = length xs"
    and "set (fst (fisher_yates rng k xs)) = set xs"
    and "distinct (map f (fst (fisher_yates rng k xs))) = distinct (map f xs)"
  using shuffle_loop_perm [of "length xs - 1" xs rng k f] assms
  by (simp_all add: fisher_yates_def)

lemma scan_index_start:
  assumes n: "2 \<le> length emps" and len: "length shuffled = length emps"
    and i: "i < length emps" and d: "distinct (map id_emp shuffled)"
  shows "scan_index emps shuffled i i 0 < length emps
         \<and> id_emp (shuffled ! scan_index emps shuffled i i 0) \<noteq> id_emp (emps ! i)"
proof (cases "id_emp (emps ! i) = id_emp (shuffled ! i)")
  case False
  then show ?thesis
    using i by (simp add: scan_index_differ)
next
  case True
  let ?a = "(i + 1) mod length emps"
  have pos: "0 < length emps"
    using n by (cases emps) auto
  have a: "?a < length emps"
    using pos by simp
  have "?a \<noteq> i"
  proof (cases "Suc i = length emps")
    case True
    then have "?a = 0"
      by simp
    moreover have "i \<noteq> 0"
      using True n by simp
    ultimately show ?thesis
      by simp
  next
    case False
    with i have "Suc i < length emps"
      by simp
    then have "?a = Suc i"
      by simp
    then show ?thesis
      by simp
  qed
  from d have "\<forall>x < length shuffled. \<forall>y < length shuffled.
      x \<noteq> y \<longrightarrow> map id_emp shuffled ! x \<noteq> map id_emp shuffled ! y"
    by (simp only: distinct_conv_nth length_map)
  with a i len \<open>?a \<noteq> i\<close> have ne: "id_emp (shuffled ! ?a) \<noteq> id_emp (shuffled ! i)"
    by (metis nth_map)
  have "scan_index emps shuffled i i 0 = scan_index emps shuffled i ?a (0 + 1)"
    using True pos by (intro scan_index_same) simp_all
  also have "\<dots> = ?a"
    using ne True by (simp add: scan_index_differ)
  finally show ?thesis
    using a ne True by simp
qed


lemma set_alist_update_subset:
  "set (AList.update k v m) \<subseteq> insert (k, v) (set m)"
  by (induction m) auto

lemma assign_loop_total:
  assumes n: "2 \<le> length emps" and len: "length shuffled = length emps"
    and d: "distinct (map id_emp shuffled)"
  shows "i \<le> length emps \<Longrightarrow>
         \<exists>t'. assign_loop emps shuffled i t = Some t'
           \<and> fst ` set t' = fst ` set t \<union> id_emp ` set (drop i emps)
           \<and> set t' \<subseteq> set t \<union> {p. fst p \<noteq> snd p \<and> snd p \<in> id_emp ` set shuffled}"
proof (induction "length emps - i" arbitrary: i t)
  case 0
  then show ?case
    by (simp add: assign_loop_done)
next
  case (Suc m)
  then have i: "i < length emps"
    by simp
  let ?a = "scan_index emps shuffled i i 0"
  let ?t1 = "AList.update (id_emp (emps ! i)) (id_emp (shuffled ! ?a)) t"
  from scan_index_start [OF n len i d]
  have a: "?a < length emps" and ne: "id_emp (shuffled ! ?a) \<noteq> id_emp (emps ! i)"
    by simp_all
  have step: "assign_loop emps shuffled i t = assign_loop emps shuffled (i + 1) ?t1"
    using i ne by (simp add: assign_loop_step)
  have "m = length emps - (i + 1)" and "i + 1 \<le> length emps"
    using Suc.hyps(2) i by simp_all
  from Suc.hyps(1) [OF this, of ?t1] obtain t' where
    t': "assign_loop emps shuffled (i + 1) ?t1 = Some t'"
    and keys: "fst ` set t' = fst ` set ?t1 \<union> id_emp ` set (drop (i + 1) emps)"
    and ents: "set t' \<subseteq> set ?t1 \<union> {p. fst p \<noteq> snd p \<and> snd p \<in> id_emp ` set shuffled}"
    by blast
  have dr: "drop i emps = emps ! i # drop (i + 1) emps"
    using i by (simp add: Cons_nth_drop_Suc)
  have k: "fst ` set t' = fst ` set t \<union> id_emp ` set (drop i emps)"
    unfolding keys dr by (auto simp: dom_update)
  have "shuffled ! ?a \<in> set shuffled"
    using a len by simp
  then have "set ?t1 \<subseteq> set t \<union> {p. fst p \<noteq> snd p \<and> snd p \<in> id_emp ` set shuffled}"
    using ne set_alist_update_subset [of "id_emp (emps ! i)" "id_emp (shuffled ! ?a)" t]
    by auto
  with ents have e: "set t' \<subseteq> set t \<union> {p. fst p \<noteq> snd p \<and> snd p \<in> id_emp ` set shuffled}"
    by blast
  from step t' k e show ?case
    by simp
qed


text \<open>
  What the bulk draw does achieve on a roster of at least two members with pairwise
  different ids, for every random source: the first attempt succeeds, every member is a
  key of the map, every target is a member, and no member is its own target.
\<close>

lemma bulk_draw_total_no_self:
  assumes n: "2 \<le> length (employees s)" and d: "distinct (map id_emp (employees s))"
  shows "error (handleSecretSantaDraw rng s) = []"
    and "fst ` set (secretSantaAssignments (handleSecretSantaDraw rng s))
           = id_emp ` set (employees s)"
    and "snd ` set (secretSantaAssignments (handleSecretSantaDraw rng s))
           \<subseteq> id_emp ` set (employees s)"
    and "\<forall>p \<in> set (secretSantaAssignments (handleSecretSantaDraw rng s)). fst p \<noteq> snd p"
proof -
  let ?emps = "employees s"
  let ?sh = "fst (fisher_yates rng 0 ?emps)"
  let ?k = "snd (fisher_yates rng 0 ?emps)"
  have ne: "?emps \<noteq> []"
    using n by auto
  have len: "length ?sh = length ?emps" and st: "set ?sh = set ?emps"
    and di: "distinct (map id_emp ?sh)"
    using fisher_yates_perm(1,2) [OF ne, of rng 0]
      fisher_yates_perm(3) [OF ne, where f = id_emp and rng = rng and k = 0] d
    by simp_all
  from assign_loop_total [OF n len di, of 0 "[]"] obtain t' where
    t': "assign_loop ?emps ?sh 0 [] = Some t'"
    and keys: "fst ` set t' = id_emp ` set ?emps"
    and ents: "set t' \<subseteq> {p. fst p \<noteq> snd p \<and> snd p \<in> id_emp ` set ?sh}"
    by auto
  have fin: "attempt_loop rng ?k ?emps ?sh 0 = t'"
    using t' by (subst attempt_loop.simps) (simp add: maxAttempts_def)
  have "t' \<noteq> []"
    using keys ne by auto
  then have res: "handleSecretSantaDraw rng s = s\<lparr>secretSantaAssignments := t', error := []\<rparr>"
    using n fin by (simp add: handleSecretSantaDraw_def Let_def)
  show "error (handleSecretSantaDraw rng s) = []"
    by (simp add: res)
  show "fst ` set (secretSantaAssignments (handleSecretSantaDraw rng s))
           = id_emp ` set (employees s)"
    using keys by (simp add: res)
  show "snd ` set (secretSantaAssignments (handleSecretSantaDraw rng s))
           \<subseteq> id_emp ` set (employees s)"
    using ents st by (auto simp: res)
  show "\<forall>p \<in> set (secretSantaAssignments (handleSecretSantaDraw rng s)). fst p \<noteq> snd p"
    using ents by (auto simp: res)
qed

text \<open>
  Claim C1, the bulk draw on a roster of three. With the random source that always
  returns 1 the shuffle gives the order 1, 3, 2. Position 0 is a fixed point, and the
  code moves on to the next shuffled position instead of swapping, so employee 1 gets
  target 3, which position 1 then gives to employee 2 as well: 3 is the target of two
  keys and 1 is the target of nobody. The map has no fixed point and every employee is a
  key, but it is not a bijection.
\<close>

theorem bulk_draw_three_shares_target:
  "secretSantaAssignments (handleSecretSantaDraw (\<lambda>k. 1) (initialState\<lparr>employees :=
       [\<lparr>id_emp = 1, empnid = ''E1'', name = ''A'', interests = []\<rparr>,
        \<lparr>id_emp = 2, empnid = ''E2'', name = ''B'', interests = []\<rparr>,
        \<lparr>id_emp = 3, empnid = ''E3'', name = ''C'', interests = []\<rparr>]\<rparr>))
     = [(1, 3), (2, 3), (3, 2)]"
  by code_simp

section \<open>Properties of the individual draw\<close>

text \<open>
  Claim C9. The slot index passed to \<open>handleSlotSelect\<close> has no influence on the target:
  with the same state and the same random number, two different slot indices give the
  same pair of drawer and chosen employee to the timer callback, and the same state after
  the commit.
\<close>

theorem slot_index_irrelevant:
  "snd (handleSlotSelect i r s) = snd (handleSlotSelect j r s)
   \<and> selectAndCommit i r s = selectAndCommit j r s"
  by (auto simp: handleSlotSelect_def selectAndCommit_def slotSelectTimeout_def Let_def
      split: option.splits prod.splits)

lemma find_id_Some:
  "find (\<lambda>x. id_emp x = e) emps = Some d \<Longrightarrow> id_emp d = e"
  by (auto simp: find_Some_iff)

text \<open>
  Claim C8 does not hold: \<open>handleSlotSelect\<close> and its timer callback never look at the
  roster. Employee 1 opens a draw, clicks a slot, employee 2 (the one picked) is deleted
  before the timer fires: the callback still records \<open>1 \<rightarrow> 2\<close> and reports no error,
  although 2 is not in the roster any more.
\<close>

theorem stale_commit_counterexample:
  "map_option (\<lambda>s. (secretSantaAssignments s, map id_emp (employees s), error s))
     (selectDeleteCommit 0 0 2 (handleIndividualDraw 1 (initialState\<lparr>employees :=
           [\<lparr>id_emp = 1, empnid = ''E1'', name = ''A'', interests = []\<rparr>,
            \<lparr>id_emp = 2, empnid = ''E2'', name = ''B'', interests = []\<rparr>,
            \<lparr>id_emp = 3, empnid = ''E3'', name = ''C'', interests = []\<rparr>]\<rparr>)))
   = Some ([(1, 2)], [1, 3], [])"
  by code_simp

text \<open>
  Claim C8 as amended. The commit of an individual draw does not re-validate the drawer or
  the chosen candidate and has no stale-draw failure: once a draw has been opened for a
  roster member \<open>e\<close> with a non-empty pool, the click and the timer callback record
  \<open>e \<rightarrow>\<close> the pool member picked by the random number, also when an employee \<open>d\<close> (who may
  be the drawer or the picked member) is deleted in between; the deletion only removes the
  entries of \<open>d\<close> that were in the map before.
\<close>

theorem commit_without_revalidation:
  assumes "find (\<lambda>x. id_emp x = e) (employees s) = Some drawer"
    and "availableEmployees e s \<noteq> []"
  shows "map_option secretSantaAssignments
           (selectDeleteCommit i r d (handleIndividualDraw e s))
         = Some (AList.update e
             (id_emp (availableEmployees e s ! (r mod length (availableEmployees e s))))
             (remove_assignments d (secretSantaAssignments s)))"
  using assms find_id_Some [OF assms(1)]
  by (simp add: selectDeleteCommit_def handleSlotSelect_def handleIndividualDraw_def
      slotSelectTimeout_def handleDelete_def Let_def)

theorem commit_without_revalidation_witness:
  "find (\<lambda>x. id_emp x = 1) (employees (initialState\<lparr>employees :=
       [\<lparr>id_emp = 1, empnid = ''E1'', name = ''A'', interests = []\<rparr>,
        \<lparr>id_emp = 2, empnid = ''E2'', name = ''B'', interests = []\<rparr>]\<rparr>))
     = Some \<lparr>id_emp = 1, empnid = ''E1'', name = ''A'', interests = []\<rparr>
   \<and> map_option secretSantaAssignments
        (selectDeleteCommit 0 0 2 (handleIndividualDraw 1 (initialState\<lparr>employees :=
       [\<lparr>id_emp = 1, empnid = ''E1'', name = ''A'', interests = []\<rparr>,
        \<lparr>id_emp = 2, empnid = ''E2'', name = ''B'', interests = []\<rparr>]\<rparr>)))
     = Some [(1, 2)]"
proof -
  let ?a = "\<lparr>id_emp = 1, empnid = ''E1'', name = ''A'', interests = []\<rparr>"
  let ?b = "\<lparr>id_emp = 2, empnid = ''E2'', name = ''B'', interests = []\<rparr>"
  let ?s = "initialState\<lparr>employees := [?a, ?b]\<rparr>"
  have h1: "find (\<lambda>x. id_emp x = 1) (employees ?s) = Some ?a"
    by simp
  have av: "availableEmployees 1 ?s = [?b]"
    by (simp add: availableEmployees_def initialState_def)
  then have h2: "availableEmployees 1 ?s \<noteq> []"
    by simp
  have rm: "remove_assignments 2 (secretSantaAssignments initialState) = []"
    by (simp add: remove_assignments_def initialState_def)
  from commit_without_revalidation [OF h1 h2, of 0 0 2] h1 show ?thesis
    by (simp add: av rm)
qed

section \<open>Properties of the spreadsheet import\<close>

lemma import_row_counter:
  "currentLastId acc = l + int (length (newEmployees acc)) \<Longrightarrow>
   currentLastId (import_row ex a b c i row acc)
     = l + int (length (newEmployees (import_row ex a b c i row acc)))"
  by (simp add: import_row_def Let_def)

lemma import_loop_counter:
  "currentLastId acc = l + int (length (newEmployees acc)) \<Longrightarrow>
   currentLastId (import_loop ex a b c i rows acc)
     = l + int (length (newEmployees (import_loop ex a b c i rows acc)))"
proof (induction rows arbitrary: i acc)
  case Nil
  then show ?case by simp
next
  case (Cons row rows)
  from Cons.prems have "currentLastId (import_row ex a b c i row acc)
     = l + int (length (newEmployees (import_row ex a b c i row acc)))"
    by (rule import_row_counter)
  then show ?case
    by (simp add: Cons.IH)
qed

lemma import_rows_counter:
  "currentLastId (import_rows a b c jsonData s)
     = lastId s + int (length (newEmployees (import_rows a b c jsonData s)))"
  unfolding import_rows_def by (rule import_loop_counter) simp

lemma import_rows_short:
  "length jsonData < 2 \<Longrightarrow>
   import_rows a b c jsonData s
     = \<lparr>newEmployees = [], duplicates = [], seenInFile = {}, currentLastId = lastId s\<rparr>"
  by (cases jsonData) (auto simp: import_rows_def)

text \<open>
  Claim C3 does not hold: a batch without duplicates is inserted by \<open>handleExcelImport\<close>
  itself, which also advances the counter, with no call of \<open>handleImportConfirm\<close>.
\<close>

theorem import_without_confirm_counterexample:
  "map id_emp (employees (handleExcelImport 0 1 None
      [[Some ''Employee_ID'', Some ''Employee_Name''], [Some ''E1'', Some ''A'']] initialState)) = [1]
   \<and> lastId (handleExcelImport 0 1 None
      [[Some ''Employee_ID'', Some ''Employee_Name''], [Some ''E1'', Some ''A'']] initialState) = 1
   \<and> employees initialState = [] \<and> lastId initialState = 0"
  by code_simp

text \<open>
  Claim C3 as amended. When the batch has a rejected row, \<open>handleExcelImport\<close> leaves the
  roster members unchanged, keeps the accepted rows as pending and already advances the
  counter by their number; \<open>handleImportConfirm\<close> then appends the pending rows to the
  roster and leaves the counter as it is. When no row is rejected, \<open>handleExcelImport\<close>
  appends the accepted rows to the roster and advances the counter by their number.
\<close>

theorem import_reconcile_then_confirm:
  "(duplicates (import_rows a b c jsonData s) \<noteq> [] \<longrightarrow>
      employees (handleExcelImport a b c jsonData s) = employees s
      \<and> pendingImportEmployees (handleExcelImport a b c jsonData s)
          = newEmployees (import_rows a b c jsonData s)
      \<and> lastId (handleExcelImport a b c jsonData s)
          = lastId s + int (length (newEmployees (import_rows a b c jsonData s)))
      \<and> employees (handleImportConfirm (handleExcelImport a b c jsonData s))
          = employees s @ newEmployees (import_rows a b c jsonData s)
      \<and> lastId (handleImportConfirm (handleExcelImport a b c jsonData s))
          = lastId (handleExcelImport a b c jsonData s))
   \<and> (duplicates (import_rows a b c jsonData s) = [] \<longrightarrow>
      employees (handleExcelImport a b c jsonData s)
          = employees s @ newEmployees (import_rows a b c jsonData s)
      \<and> lastId (handleExcelImport a b c jsonData s)
          = lastId s + int (length (newEmployees (import_rows a b c jsonData s))))"
proof (cases "length jsonData < 2")
  case True
  then show ?thesis
    by (simp add: handleExcelImport_def import_rows_short)
next
  case False
  then show ?thesis
    using import_rows_counter [of a b c jsonData s]
    by (simp add: handleExcelImport_def handleImportConfirm_def Let_def)
qed


theorem import_reconcile_then_confirm_witness:
  "duplicates (import_rows 0 1 None
      [[Some ''Employee_ID'', Some ''Employee_Name''], [Some ''E1'', Some ''A''],
       [Some ''e1'', Some ''B'']] initialState) \<noteq> []
   \<and> employees (handleExcelImport 0 1 None
      [[Some ''Employee_ID'', Some ''Employee_Name''], [Some ''E1'', Some ''A''],
       [Some ''e1'', Some ''B'']] initialState) = employees initialState
   \<and> lastId (handleExcelImport 0 1 None
      [[Some ''Employee_ID'', Some ''Employee_Name''], [Some ''E1'', Some ''A''],
       [Some ''e1'', Some ''B'']] initialState)
      = lastId initialState + int (length (newEmployees (import_rows 0 1 None
      [[Some ''Employee_ID'', Some ''Employee_Name''], [Some ''E1'', Some ''A''],
       [Some ''e1'', Some ''B'']] initialState)))"
proof -
  let ?j = "[[Some ''Employee_ID'', Some ''Employee_Name''], [Some ''E1'', Some ''A''],
       [Some ''e1'', Some ''B'']]"
  have h: "duplicates (import_rows 0 1 None ?j initialState) \<noteq> []"
    by code_simp
  from import_reconcile_then_confirm [of 0 1 None ?j initialState] h show ?thesis
    by blast
qed

lemma import_loop_snoc:
  "import_loop ex a b c i (rows @ [row]) acc
     = import_row ex a b c (i + length rows) row (import_loop ex a b c i rows acc)"
  by (induction rows arbitrary: i acc) auto

lemma import_row_seen:
  "seenInFile acc = set (map (\<lambda>emp. toLowerCase (empnid emp)) (newEmployees acc)) \<Longrightarrow>
   seenInFile (import_row ex a b c i row acc)
     = set (map (\<lambda>emp. toLowerCase (empnid emp)) (newEmployees (import_row ex a b c i row acc)))"
  by (simp add: import_row_def Let_def)

lemma import_loop_seen:
  "seenInFile acc = set (map (\<lambda>emp. toLowerCase (empnid emp)) (newEmployees acc)) \<Longrightarrow>
   seenInFile (import_loop ex a b c i rows acc)
     = set (map (\<lambda>emp. toLowerCase (empnid emp))
         (newEmployees (import_loop ex a b c i rows acc)))"
proof (induction rows arbitrary: i acc)
  case Nil
  then show ?case by simp
next
  case (Cons row rows)
  from Cons.prems have "seenInFile (import_row ex a b c i row acc)
     = set (map (\<lambda>emp. toLowerCase (empnid emp)) (newEmployees (import_row ex a b c i row acc)))"
    by (rule import_row_seen)
  then show ?case
    by (simp add: Cons.IH)
qed

lemma import_rows_seen:
  "seenInFile (import_rows a b c jsonData s)
     = set (map (\<lambda>emp. toLowerCase (empnid emp)) (newEmployees (import_rows a b c jsonData s)))"
  unfolding import_rows_def by (rule import_loop_seen) simp

lemma list_ex_lower:
  "list_ex (\<lambda>emp. toLowerCase (empnid emp) = l) emps
     \<longleftrightarrow> l \<in> set (map (\<lambda>emp. toLowerCase (empnid emp)) emps)"
  by (auto simp: list_ex_iff)

lemma import_rows_snoc:
  "import_rows a b c (header # rows @ [row]) s
     = import_row (set (map (\<lambda>emp. toLowerCase (empnid emp)) (employees s))) a b c
         (length rows + 1) row (import_rows a b c (header # rows) s)"
  by (simp add: import_rows_def import_loop_snoc)

text \<open>
  Claim C6. The result of a batch followed by one more row is the result of the batch,
  extended as the reconciliation rule says: a row with an empty identifier or name (or an
  empty row) changes nothing; otherwise the identifier is compared, ignoring case, with
  the identifiers accepted earlier in the batch and then with the roster, the first
  collision rejects the row with its reason, and without a collision the row is accepted
  with the next id. On the batch E1/A, e1/B, E2/C and an empty roster, E1 and E2 are
  accepted and the second data row (sheet row 3) is rejected as a duplicate in the file.
\<close>

theorem import_classifies_rows:
  "import_rows a b c (header # rows @ [row]) s =
     (let acc = import_rows a b c (header # rows) s;
          e = cell_text row a;
          n = cell_text row b
      in if row = [] \<or> e = [] \<or> n = [] then acc
         else case spec_classify (employees s) (newEmployees acc) e of
                Some why \<Rightarrow>
                  acc\<lparr>duplicates := duplicates acc @
                    [\<lparr>row_dup = length rows + 2, empnid_dup = e, name_dup = n, reason = why\<rparr>]\<rparr>
              | None \<Rightarrow>
                  acc\<lparr>seenInFile := insert (toLowerCase e) (seenInFile acc),
                      currentLastId := currentLastId acc + 1,
                      newEmployees := newEmployees acc @
                        [\<lparr>id_emp = currentLastId acc + 1, empnid = e, name = n,
                          interests = (case c of None \<Rightarrow> [] | Some k \<Rightarrow> cell_text row k)\<rparr>]\<rparr>)
   \<and> newEmployees (import_rows 0 1 None
        [[Some ''Employee_ID'', Some ''Employee_Name''], [Some ''E1'', Some ''A''],
         [Some ''e1'', Some ''B''], [Some ''E2'', Some ''C'']] initialState)
       = [\<lparr>id_emp = 1, empnid = ''E1'', name = ''A'', interests = []\<rparr>,
          \<lparr>id_emp = 2, empnid = ''E2'', name = ''C'', interests = []\<rparr>]
   \<and> duplicates (import_rows 0 1 None
        [[Some ''Employee_ID'', Some ''Employee_Name''], [Some ''E1'', Some ''A''],
         [Some ''e1'', Some ''B''], [Some ''E2'', Some ''C'']] initialState)
       = [\<lparr>row_dup = 3, empnid_dup = ''e1'', name_dup = ''B'',
           reason = ''Duplicate Employee ID in Excel file''\<rparr>]"
proof (intro conjI)
  show "import_rows a b c (header # rows @ [row]) s =
     (let acc = import_rows a b c (header # rows) s;
          e = cell_text row a;
          n = cell_text row b
      in if row = [] \<or> e = [] \<or> n = [] then acc
         else case spec_classify (employees s) (newEmployees acc) e of
                Some why \<Rightarrow>
                  acc\<lparr>duplicates := duplicates acc @
                    [\<lparr>row_dup = length rows + 2, empnid_dup = e, name_dup = n, reason = why\<rparr>]\<rparr>
              | None \<Rightarrow>
                  acc\<lparr>seenInFile := insert (toLowerCase e) (seenInFile acc),
                      currentLastId := currentLastId acc + 1,
                      newEmployees := newEmployees acc @
                        [\<lparr>id_emp = currentLastId acc + 1, empnid = e, name = n,
                          interests = (case c of None \<Rightarrow> [] | Some k \<Rightarrow> cell_text row k)\<rparr>]\<rparr>)"
    unfolding import_rows_snoc
    by (simp add: import_row_def spec_classify_def list_ex_lower Let_def
        import_rows_seen [of a b c "header # rows" s])
next
  show "newEmployees (import_rows 0 1 None
        [[Some ''Employee_ID'', Some ''Employee_Name''], [Some ''E1'', Some ''A''],
         [Some ''e1'', Some ''B''], [Some ''E2'', Some ''C'']] initialState)
       = [\<lparr>id_emp = 1, empnid = ''E1'', name = ''A'', interests = []\<rparr>,
          \<lparr>id_emp = 2, empnid = ''E2'', name = ''C'', interests = []\<rparr>]"
    by code_simp
next
  show "duplicates (import_rows 0 1 None
        [[Some ''Employee_ID'', Some ''Employee_Name''], [Some ''E1'', Some ''A''],
         [Some ''e1'', Some ''B''], [Some ''E2'', Some ''C'']] initialState)
       = [\<lparr>row_dup = 3, empnid_dup = ''e1'', name_dup = ''B'',
           reason = ''Duplicate Employee ID in Excel file''\<rparr>]"
    by code_simp
qed

section \<open>Properties of a sequence of individual draws\<close>

lemma set_update_distinct:
  "distinct (map fst m) \<Longrightarrow>
   set (AList.update k v m) = insert (k, v) {p \<in> set m. fst p \<noteq> k}"
  by (induction m) (auto simp: rev_image_eqI)

lemma drawn_ok_refl: "drawn_ok m m"
  by (auto simp: drawn_ok_def)

lemma drawn_ok_update:
  assumes d: "distinct (map fst m)" and ok: "drawn_ok m0 m"
    and ne: "t \<noteq> e" and fresh: "t \<notin> snd ` set m"
  shows "drawn_ok m0 (AList.update e t m)"
proof -
  let ?m' = "AList.update e t m"
  have new: "snd q \<noteq> t" if "q \<in> set m" for q
    using fresh that by force
  have upd: "set ?m' = insert (e, t) {p \<in> set m. fst p \<noteq> e}"
    using d by (rule set_update_distinct)
  have "p \<in> set m0 \<or> (snd p \<noteq> fst p \<and> (\<forall>q \<in> set ?m'. snd q = snd p \<longrightarrow> fst q = fst p))"
    if p: "p \<in> set ?m'" for p
  proof (cases "p = (e, t)")
    case True
    then show ?thesis
      unfolding upd using ne new by auto
  next
    case False
    with p upd have in_m: "p \<in> set m"
      by auto
    show ?thesis
    proof (cases "p \<in> set m0")
      case True
      then show ?thesis by simp
    next
      case False
      with ok in_m
      have old: "snd p \<noteq> fst p \<and> (\<forall>q \<in> set m. snd q = snd p \<longrightarrow> fst q = fst p)"
        unfolding drawn_ok_def by blast
      have "snd p \<noteq> t"
        using new [OF in_m] .
      with old show ?thesis
        unfolding upd by auto
    qed
  qed
  then show ?thesis
    unfolding drawn_ok_def by blast
qed

lemma run_events_append:
  "run_events (xs @ ys) c =
     (case run_events xs c of None \<Rightarrow> None | Some c' \<Rightarrow> run_events ys c')"
  by (induction xs arbitrary: c) (auto split: option.splits)

lemma one_draw_step:
  assumes "no_pending s"
  shows "\<exists>s'. run_events [Draw e, SlotClick i r, TimerFires] (s, []) = Some (s', [])
           \<and> no_pending s'
           \<and> (secretSantaAssignments s' = secretSantaAssignments s
              \<or> (\<exists>t. t \<noteq> e \<and> t \<notin> snd ` set (secretSantaAssignments s)
                    \<and> secretSantaAssignments s'
                        = AList.update e t (secretSantaAssignments s)))"
proof (cases "availableEmployees e s = []")
  case True
  then show ?thesis
    using assms by (auto simp: handleIndividualDraw_def no_pending_def)
next
  case pool: False
  show ?thesis
  proof (cases "find (\<lambda>x. id_emp x = e) (employees s)")
    case None
    then show ?thesis
      using pool by (simp add: handleIndividualDraw_def no_pending_def)
  next
    case (Some drawer)
    let ?pool = "availableEmployees e s"
    let ?a = "?pool ! (r mod length ?pool)"
    have idd: "id_emp drawer = e"
      using Some by (auto simp: find_Some_iff)
    have "?a \<in> set ?pool"
      using pool by simp
    then have a: "id_emp ?a \<noteq> e \<and> id_emp ?a \<notin> snd ` set (secretSantaAssignments s)"
      by (simp add: availableEmployees_def)
    have "\<exists>s'. run_events [Draw e, SlotClick i r, TimerFires] (s, []) = Some (s', [])
          \<and> no_pending s'
          \<and> secretSantaAssignments s' = AList.update e (id_emp ?a) (secretSantaAssignments s)"
      using pool Some idd
      by (simp add: handleIndividualDraw_def handleSlotSelect_def slotSelectTimeout_def
          no_pending_def Let_def)
    with a show ?thesis
      by blast
  qed
qed

text \<open>
  Draws that do not overlap keep targets apart: from a state with no draw waiting and a
  dictionary as map, every sequence of draws, each committed before the next one starts,
  runs to the end with no timer left, and every entry of the resulting map that was not
  in the starting map has a target different from its key that no other key has.
\<close>

lemma sequential_draws_no_shared_target:
  assumes "no_pending s" and "distinct (map fst (secretSantaAssignments s))"
    and "drawn_ok m0 (secretSantaAssignments s)"
  shows "\<exists>s'. run_events (sequential_draws ds) (s, []) = Some (s', [])
           \<and> drawn_ok m0 (secretSantaAssignments s')"
  using assms
proof (induction ds arbitrary: s)
  case Nil
  then show ?case
    by (simp add: sequential_draws_def)
next
  case (Cons dr ds)
  obtain e i r where dr: "dr = (e, i, r)"
    by (cases dr) auto
  from one_draw_step [OF Cons.prems(1), of e i r]
  obtain s1 where s1: "run_events [Draw e, SlotClick i r, TimerFires] (s, []) = Some (s1, [])"
    and np: "no_pending s1"
    and m: "secretSantaAssignments s1 = secretSantaAssignments s
            \<or> (\<exists>t. t \<noteq> e \<and> t \<notin> snd ` set (secretSantaAssignments s)
                  \<and> secretSantaAssignments s1 = AList.update e t (secretSantaAssignments s))"
    by blast
  from m Cons.prems(2,3)
  have "distinct (map fst (secretSantaAssignments s1)) \<and> drawn_ok m0 (secretSantaAssignments s1)"
    by (auto simp: distinct_update drawn_ok_update)
  with Cons.IH [OF np] obtain s' where
    "run_events (sequential_draws ds) (s1, []) = Some (s', [])"
    "drawn_ok m0 (secretSantaAssignments s')"
    by blast
  moreover have "sequential_draws (dr # ds)
      = [Draw e, SlotClick i r, TimerFires] @ sequential_draws ds"
    by (simp add: sequential_draws_def dr)
  ultimately show ?case
    using s1 by (simp only: run_events_append option.case) blast
qed

lemma handleIndividualDraw_assignments:
  "secretSantaAssignments (handleIndividualDraw e s) = secretSantaAssignments s"
  by (simp add: handleIndividualDraw_def)

lemma handleIndividualDraw_inv:
  assumes "draw_inv (s, timers)"
  shows "draw_inv (handleIndividualDraw e s, timers)"
proof (cases "availableEmployees e s = []")
  case True
  then show ?thesis
    using assms by (simp add: draw_inv_def handleIndividualDraw_def)
next
  case pool: False
  show ?thesis
  proof (cases "find (\<lambda>x. id_emp x = e) (employees s)")
    case None
    then show ?thesis
      using assms pool by (simp add: draw_inv_def handleIndividualDraw_def)
  next
    case (Some d)
    then have "id_emp d = e"
      by (auto simp: find_Some_iff)
    then have "list_all (\<lambda>emp. id_emp emp \<noteq> id_emp d) (availableEmployees e s)"
      by (simp add: availableEmployees_def list_all_iff)
    then show ?thesis
      using assms pool Some by (simp add: draw_inv_def handleIndividualDraw_def)
  qed
qed


lemma slot_click_inv:
  assumes "draw_inv (s, timers)"
  shows "\<exists>s' timers'. step (SlotClick i r) (s, timers) = Some (s', timers')
           \<and> draw_inv (s', timers')
           \<and> secretSantaAssignments s' = secretSantaAssignments s"
proof (cases "showSlotSelection s \<and> currentDrawingEmployee s \<noteq> None \<and> selectedSlot s = None")
  case False
  then show ?thesis
    using assms by (auto simp: handleSlotSelect_def)
next
  case True
  then obtain d where d: "currentDrawingEmployee s = Some d"
    by auto
  let ?pool = "availableSlots s"
  let ?a = "?pool ! (r mod length ?pool)"
  from assms True d have pool: "?pool \<noteq> []"
    and ok: "\<forall>x \<in> set ?pool. id_emp x \<noteq> id_emp d"
    by (simp_all add: draw_inv_def list_all_iff)
  then have "?a \<in> set ?pool"
    by simp
  with ok have "id_emp ?a \<noteq> id_emp d"
    by blast
  then have cl: "closure_ok (Some d, Some ?a)"
    by (auto simp: closure_ok_def)
  have st: "step (SlotClick i r) (s, timers)
        = Some (s\<lparr>selectedSlot := Some i\<rparr>, timers @ [(Some d, Some ?a)])"
    using True d pool by (simp add: handleSlotSelect_def Let_def)
  have "draw_inv (s\<lparr>selectedSlot := Some i\<rparr>, timers @ [(Some d, Some ?a)])"
    using assms cl by (simp add: draw_inv_def)
  with st show ?thesis
    by simp
qed

lemma close_slots_inv:
  assumes "draw_inv (s, timers)"
  shows "draw_inv (handleCloseSlotSelection s, timers)"
  using assms by (simp add: draw_inv_def handleCloseSlotSelection_def)

lemma timer_fires_inv:
  assumes "draw_inv (s, timers)"
  shows "\<exists>s' timers'. step TimerFires (s, timers) = Some (s', timers')
           \<and> draw_inv (s', timers')
           \<and> (\<forall>p \<in> set (secretSantaAssignments s').
                 p \<in> set (secretSantaAssignments s) \<or> fst p \<noteq> snd p)"
proof (cases timers)
  case Nil
  then show ?thesis
    using assms by simp
next
  case (Cons cl rest)
  with assms have "closure_ok cl" and rest: "list_all closure_ok rest"
    by (simp_all add: draw_inv_def)
  then obtain d a where cl: "cl = (Some d, Some a)" and ne: "id_emp d \<noteq> id_emp a"
    by (cases cl) (auto simp: closure_ok_def split: option.splits)
  let ?m = "AList.update (id_emp d) (id_emp a) (secretSantaAssignments s)"
  let ?s' = "s\<lparr>secretSantaAssignments := ?m, showSlotSelection := False,
               currentDrawingEmployee := None, availableSlots := [], selectedSlot := None\<rparr>"
  have st: "step TimerFires (s, timers) = Some (?s', rest)"
    by (simp add: Cons cl slotSelectTimeout_def)
  have "set ?m \<subseteq> insert (id_emp d, id_emp a) (set (secretSantaAssignments s))"
    by (rule set_alist_update_subset)
  with ne have ent: "\<forall>p \<in> set ?m. p \<in> set (secretSantaAssignments s) \<or> fst p \<noteq> snd p"
    by auto
  have "draw_inv (?s', rest)"
    using rest by (simp add: draw_inv_def)
  with st ent show ?thesis
    by simp
qed

lemma step_draw_inv:
  assumes "draw_inv c"
  shows "\<exists>c'. step ev c = Some c' \<and> draw_inv c'
           \<and> (\<forall>p \<in> set (secretSantaAssignments (fst c')).
                 p \<in> set (secretSantaAssignments (fst c)) \<or> fst p \<noteq> snd p)"
proof -
  obtain s timers where c: "c = (s, timers)"
    by (cases c) auto
  show ?thesis
  proof (cases ev)
    case (Draw e)
    then show ?thesis
      using handleIndividualDraw_inv [of s timers e] assms
      by (simp add: c handleIndividualDraw_assignments)
  next
    case (SlotClick i r)
    from slot_click_inv [of s timers i r] assms obtain s' timers' where
      "step (SlotClick i r) (s, timers) = Some (s', timers')" "draw_inv (s', timers')"
      "secretSantaAssignments s' = secretSantaAssignments s"
      unfolding c by blast
    then show ?thesis
      unfolding c SlotClick by simp
  next
    case CloseSlots
    then show ?thesis
      using close_slots_inv [of s timers] assms
      by (simp add: c handleCloseSlotSelection_def)
  next
    case TimerFires
    from timer_fires_inv [of s timers] assms obtain s' timers' where
      "step TimerFires (s, timers) = Some (s', timers')" "draw_inv (s', timers')"
      "\<forall>p \<in> set (secretSantaAssignments s').
          p \<in> set (secretSantaAssignments s) \<or> fst p \<noteq> snd p"
      unfolding c by blast
    then show ?thesis
      unfolding c TimerFires by simp
  qed
qed

text \<open>
  Whatever the order of Draw clicks, slot clicks, closings and timer firings, no timer
  callback throws, and every entry of the resulting map that was not in the starting map
  has a target different from its key.
\<close>

lemma run_events_no_self:
  assumes "draw_inv c"
  shows "\<exists>c'. run_events evs c = Some c' \<and> draw_inv c'
           \<and> (\<forall>p \<in> set (secretSantaAssignments (fst c')).
                 p \<in> set (secretSantaAssignments (fst c)) \<or> fst p \<noteq> snd p)"
  using assms
proof (induction evs arbitrary: c)
  case Nil
  then show ?case by simp
next
  case (Cons ev evs)
  from step_draw_inv [OF Cons.prems, of ev] obtain c1 where
    c1: "step ev c = Some c1" "draw_inv c1"
    and p1: "\<forall>p \<in> set (secretSantaAssignments (fst c1)).
               p \<in> set (secretSantaAssignments (fst c)) \<or> fst p \<noteq> snd p"
    by blast
  from Cons.IH [OF c1(2)] obtain c' where
    c': "run_events evs c1 = Some c'" "draw_inv c'"
    and p': "\<forall>p \<in> set (secretSantaAssignments (fst c')).
               p \<in> set (secretSantaAssignments (fst c1)) \<or> fst p \<noteq> snd p"
    by blast
  from p1 p' have "\<forall>p \<in> set (secretSantaAssignments (fst c')).
               p \<in> set (secretSantaAssignments (fst c)) \<or> fst p \<noteq> snd p"
    by blast
  with c1 c' show ?case
    by simp
qed

lemma draw_inv_initial: "currentDrawingEmployee s = None \<Longrightarrow> draw_inv (s, [])"
  by (simp add: draw_inv_def)

text \<open>
  Claim C2, two draws that overlap. Employee 1 presses Draw and clicks a slot, and the
  random index picks employee 2; the overlay is closed before the timer fires, which does
  not cancel the timer. Employee 3 presses Draw: the map is still empty, so the pool is
  1 and 2; the slot click picks employee 2 again. Both timers then fire and record
  \<open>1 \<rightarrow> 2\<close> and \<open>3 \<rightarrow> 2\<close>: employee 2 is the target of two drawers. The second commit
  writes a target that was free when its pool was computed and is taken when it is
  recorded.
\<close>

theorem overlapping_draws_share_target:
  "map_option (\<lambda>c. (secretSantaAssignments (fst c), snd c))
     (run_events [Draw 1, SlotClick 0 0, CloseSlots, Draw 3, SlotClick 0 1, TimerFires, TimerFires]
        (initialState\<lparr>employees :=
       [\<lparr>id_emp = 1, empnid = ''E1'', name = ''A'', interests = []\<rparr>,
        \<lparr>id_emp = 2, empnid = ''E2'', name = ''B'', interests = []\<rparr>,
        \<lparr>id_emp = 3, empnid = ''E3'', name = ''C'', interests = []\<rparr>]\<rparr>, []))
   = Some ([(1, 2), (3, 2)], [])"
  by code_simp

section \<open>Trimmed and non-empty fields\<close>

text \<open>
  The form handlers and the spreadsheet import trim identifier and name before they test
  them for emptiness, so every record they add to the roster or to the pending list is
  clean.
\<close>

lemma trim_idem: "trim (trim s) = trim s"
proof -
  let ?u = "dropWhile is_space s"
  let ?w = "dropWhile is_space (rev ?u)"
  have t: "trim s = rev ?w"
    by (simp add: trim_def)
  have front: "dropWhile is_space (rev ?w) = rev ?w"
  proof (cases "?w = []")
    case True
    show ?thesis
      by (simp only: True rev.simps(1) dropWhile.simps(1))
  next
    case False
    then have u: "?u \<noteq> []"
      by (metis dropWhile.simps(1) rev.simps(1))
    have "hd (rev ?w) = last ?w"
      using False by (simp add: hd_rev)
    also have "\<dots> = last (rev ?u)"
      using False by (metis last_appendR takeWhile_dropWhile_id)
    also have "\<dots> = hd ?u"
      using u by (simp add: last_rev)
    finally have "\<not> is_space (hd (rev ?w))"
      using hd_dropWhile [OF u] by simp
    then show ?thesis
      by (simp add: dropWhile_eq_self_iff)
  qed
  show ?thesis
    unfolding t by (simp add: trim_def front)
qed

lemma trim_Nil: "trim [] = []"
  by (simp add: trim_def)

lemma formEmployee_clean:
  "validateForm s = None \<Longrightarrow> clean_employee (formEmployee i s)"
  by (auto simp: validateForm_def formEmployee_def clean_employee_def trim_idem Let_def
      split: if_splits option.splits)

lemma handleCreate_clean:
  "list_all clean_employee (employees s) \<Longrightarrow>
   list_all clean_employee (employees (handleCreate s))"
  by (auto simp: handleCreate_def Let_def formEmployee_clean split: option.splits)

lemma handleUpdate_clean:
  "list_all clean_employee (employees s) \<Longrightarrow>
   list_all clean_employee (employees (handleUpdate s))"
  by (auto simp: handleUpdate_def Let_def formEmployee_clean list_all_iff split: option.splits)

lemma cell_text_trimmed: "trim (cell_text row idx) = cell_text row idx"
  by (simp add: cell_text_def trim_idem trim_Nil split: option.splits)

lemma import_row_clean:
  "list_all clean_employee (newEmployees acc) \<Longrightarrow>
   list_all clean_employee (newEmployees (import_row ex a b c i row acc))"
  by (simp add: import_row_def Let_def clean_employee_def cell_text_trimmed)

lemma import_loop_clean:
  "list_all clean_employee (newEmployees acc) \<Longrightarrow>
   list_all clean_employee (newEmployees (import_loop ex a b c i rows acc))"
  by (induction rows arbitrary: i acc) (simp_all add: import_row_clean)

lemma handleExcelImport_clean:
  assumes "list_all clean_employee (employees s)"
    and "list_all clean_employee (pendingImportEmployees s)"
  shows "list_all clean_employee (employees (handleExcelImport a b c jsonData s))"
    and "list_all clean_employee (pendingImportEmployees (handleExcelImport a b c jsonData s))"
proof -
  have "list_all clean_employee (newEmployees (import_rows a b c jsonData s))"
    unfolding import_rows_def by (rule import_loop_clean) simp
  with assms show "list_all clean_employee (employees (handleExcelImport a b c jsonData s))"
    and "list_all clean_employee (pendingImportEmployees (handleExcelImport a b c jsonData s))"
    by (simp_all add: handleExcelImport_def Let_def)
qed

lemma handleImportConfirm_clean:
  "list_all clean_employee (employees s) \<Longrightarrow>
   list_all clean_employee (pendingImportEmployees s) \<Longrightarrow>
   list_all clean_employee (employees (handleImportConfirm s))"
  by (simp add: handleImportConfirm_def Let_def)

section \<open>Loading what a load saved\<close>

lemma load_step_inv:
  assumes "load_inv acc" and "trimmed_entry entry"
  shows "load_inv (load_step entry acc)"
proof (cases entry)
  case None
  with assms show ?thesis
    by (simp add: load_step_def)
next
  case (Some emp)
  show ?thesis
  proof (cases "raw_id emp \<noteq> 0 \<and> raw_empnid emp \<noteq> [] \<and> raw_name emp \<noteq> []
             \<and> toLowerCase (raw_empnid emp) \<notin> seenEmpnids acc")
    case False
    with Some have "load_step entry acc = acc"
      by (auto simp: load_step_def)
    with assms show ?thesis
      by simp
  next
    case True
    have tr: "trim (raw_empnid emp) = raw_empnid emp" "trim (raw_name emp) = raw_name emp"
      using assms(2) Some by (simp_all add: trimmed_entry_def)
    let ?e = "\<lparr>id_emp = raw_id emp, empnid = raw_empnid emp, name = raw_name emp,
               interests = (if raw_interests emp \<noteq> [] then trim (raw_interests emp) else [])\<rparr>"
    let ?m = "if raw_id emp > maxId acc then raw_id emp else maxId acc"
    have step: "load_step entry acc =
        acc\<lparr>seenEmpnids := insert (toLowerCase (raw_empnid emp)) (seenEmpnids acc),
            maxId := ?m, uniqueEmployees := uniqueEmployees acc @ [?e]\<rparr>"
      using True Some by (simp add: load_step_def Let_def tr)
    have le: "loaded_employee ?e"
      using True tr by (simp add: loaded_employee_def clean_employee_def trim_idem trim_Nil)
    have mono: "list_all (\<lambda>emp. id_emp emp \<le> ?m) (uniqueEmployees acc)"
      using assms(1) by (auto simp: load_inv_def list_all_iff)
    show ?thesis
      unfolding step using assms(1) True le mono
      by (auto simp: load_inv_def)
  qed
qed

lemma fold_load_step_inv:
  "load_inv acc \<Longrightarrow> list_all trimmed_entry raws \<Longrightarrow> load_inv (fold load_step raws acc)"
  by (induction raws arbitrary: acc) (simp_all add: load_step_inv)

lemma load_inv_init: "load_inv \<lparr>uniqueEmployees = [], seenEmpnids = {}, maxId = 0\<rparr>"
  by (simp add: load_inv_def)

lemma load_step_saved:
  assumes "loaded_employee emp" and "toLowerCase (empnid emp) \<notin> seenEmpnids acc"
  shows "uniqueEmployees (load_step (Some (to_raw emp)) acc) = uniqueEmployees acc @ [emp]"
    and "seenEmpnids (load_step (Some (to_raw emp)) acc)
           = insert (toLowerCase (empnid emp)) (seenEmpnids acc)"
  using assms
  by (simp_all add: load_step_def to_raw_def loaded_employee_def clean_employee_def Let_def)

lemma fold_load_step_saved:
  "list_all loaded_employee emps \<Longrightarrow>
   distinct (map (\<lambda>emp. toLowerCase (empnid emp)) emps) \<Longrightarrow>
   seenEmpnids acc \<inter> set (map (\<lambda>emp. toLowerCase (empnid emp)) emps) = {} \<Longrightarrow>
   uniqueEmployees (fold load_step (map (\<lambda>emp. Some (to_raw emp)) emps) acc)
     = uniqueEmployees acc @ emps"
proof (induction emps arbitrary: acc)
  case Nil
  then show ?case by simp
next
  case (Cons emp emps)
  let ?acc1 = "load_step (Some (to_raw emp)) acc"
  have e: "loaded_employee emp" and fresh: "toLowerCase (empnid emp) \<notin> seenEmpnids acc"
    using Cons.prems by auto
  note st = load_step_saved [OF e fresh]
  have "seenEmpnids ?acc1 \<inter> set (map (\<lambda>emp. toLowerCase (empnid emp)) emps) = {}"
    using Cons.prems unfolding st by auto
  with Cons.prems have "uniqueEmployees (fold load_step (map (\<lambda>emp. Some (to_raw emp)) emps) ?acc1)
     = uniqueEmployees ?acc1 @ emps"
    by (intro Cons.IH) simp_all
  then show ?case
    by (simp add: st)
qed


lemma trimmed_saved_entries:
  "list_all loaded_employee emps \<Longrightarrow>
   list_all trimmed_entry (map (\<lambda>emp. Some (to_raw emp)) emps)"
  by (simp add: list_all_iff trimmed_entry_def to_raw_def loaded_employee_def clean_employee_def)

text \<open>
  On a stored list whose identifiers and names are already trimmed, loading what a load
  saved gives the same roster and the same counter, for every stored counter.
\<close>

lemma load_idempotent_on_trimmed:
  assumes tr: "list_all trimmed_entry raws"
  shows "employees (loadEmployees (saveState st
            (loadEmployees \<lparr>savedEmployees = Some raws, savedLastId = c\<rparr>)))
         = employees (loadEmployees \<lparr>savedEmployees = Some raws, savedLastId = c\<rparr>)"
    and "lastId (loadEmployees (saveState st
            (loadEmployees \<lparr>savedEmployees = Some raws, savedLastId = c\<rparr>)))
         = lastId (loadEmployees \<lparr>savedEmployees = Some raws, savedLastId = c\<rparr>)"
proof -
  let ?init = "\<lparr>uniqueEmployees = [], seenEmpnids = {}, maxId = 0\<rparr>"
  let ?key = "\<lambda>emp. toLowerCase (empnid emp)"
  let ?acc1 = "fold load_step raws ?init"
  let ?U = "uniqueEmployees ?acc1"
  let ?S = "sort_key id_emp ?U"
  let ?c0 = "case c of None \<Rightarrow> 0 | Some n \<Rightarrow> n"
  let ?l1 = "if maxId ?acc1 > ?c0 then maxId ?acc1 else ?c0"
  let ?s1 = "loadEmployees \<lparr>savedEmployees = Some raws, savedLastId = c\<rparr>"
  let ?acc2 = "fold load_step (map (\<lambda>emp. Some (to_raw emp)) ?S) ?init"
  have inv1: "load_inv ?acc1"
    using load_inv_init tr by (rule fold_load_step_inv)
  have e1: "employees ?s1 = ?S" and l1: "lastId ?s1 = ?l1"
    by (simp_all add: loadEmployees_def Let_def)
  have l1_nonneg: "0 \<le> ?l1"
    using inv1 by (auto simp: load_inv_def)
  have saved: "saveState st ?s1
      = \<lparr>savedEmployees = Some (map (\<lambda>emp. Some (to_raw emp)) ?S), savedLastId = Some ?l1\<rparr>"
    using l1_nonneg unfolding saveState_def e1 l1 by simp
  have loadedS: "list_all loaded_employee ?S"
    using inv1 by (simp add: load_inv_def list_all_iff)
  have "distinct ?U \<and> inj_on ?key (set ?U)"
    using inv1 by (simp add: load_inv_def distinct_map)
  then have distS: "distinct (map ?key ?S)"
    by (simp add: distinct_map)
  have U2: "uniqueEmployees ?acc2 = ?S"
    using fold_load_step_saved [OF loadedS distS, of ?init] by simp
  have inv2: "load_inv ?acc2"
    using load_inv_init trimmed_saved_entries [OF loadedS] by (rule fold_load_step_inv)
  have "maxId ?acc2 = 0 \<or> maxId ?acc2 \<in> id_emp ` set ?U"
    using inv2 unfolding load_inv_def U2 by simp
  moreover have "0 \<le> maxId ?acc1" and "\<forall>emp \<in> set ?U. id_emp emp \<le> maxId ?acc1"
    using inv1 by (simp_all add: load_inv_def list_all_iff)
  ultimately have "maxId ?acc2 \<le> maxId ?acc1"
    by auto
  then have m2: "\<not> maxId ?acc2 > ?l1"
    by auto
  have sortedS: "sort_key id_emp ?S = ?S"
    by (rule sort_key_id_if_sorted) (rule sorted_sort_key)
  have e2: "employees (loadEmployees (saveState st ?s1)) = ?S"
    unfolding saved by (simp add: loadEmployees_def Let_def U2 sortedS)
  have l2: "lastId (loadEmployees (saveState st ?s1)) = ?l1"
    unfolding saved using m2 by (simp add: loadEmployees_def Let_def)
  show "employees (loadEmployees (saveState st ?s1)) = employees ?s1"
    using e1 e2 by simp
  show "lastId (loadEmployees (saveState st ?s1)) = lastId ?s1"
    using l1 l2 by simp
qed

text \<open>
  Claim C4, reloading the output of a load. The stored list holds the identifiers \<open>E1\<close>
  and \<open>E1\<close> with a leading blank. The first load compares the untrimmed identifiers,
  keeps both records and stores both as \<open>E1\<close>; the load of what was saved then drops the
  second record as a duplicate of the first.
\<close>

theorem load_twice_differs:
  "employees (loadEmployees
      \<lparr>savedEmployees = Some
         [Some \<lparr>raw_id = 1, raw_empnid = ''E1'', raw_name = ''A'', raw_interests = []\<rparr>,
          Some \<lparr>raw_id = 2, raw_empnid = '' E1'', raw_name = ''B'', raw_interests = []\<rparr>],
       savedLastId = None\<rparr>)
     = [\<lparr>id_emp = 1, empnid = ''E1'', name = ''A'', interests = []\<rparr>,
        \<lparr>id_emp = 2, empnid = ''E1'', name = ''B'', interests = []\<rparr>]
   \<and> employees (loadEmployees (saveState
      \<lparr>savedEmployees = Some
         [Some \<lparr>raw_id = 1, raw_empnid = ''E1'', raw_name = ''A'', raw_interests = []\<rparr>,
          Some \<lparr>raw_id = 2, raw_empnid = '' E1'', raw_name = ''B'', raw_interests = []\<rparr>],
       savedLastId = None\<rparr>
      (loadEmployees
      \<lparr>savedEmployees = Some
         [Some \<lparr>raw_id = 1, raw_empnid = ''E1'', raw_name = ''A'', raw_interests = []\<rparr>,
          Some \<lparr>raw_id = 2, raw_empnid = '' E1'', raw_name = ''B'', raw_interests = []\<rparr>],
       savedLastId = None\<rparr>)))
     = [\<lparr>id_emp = 1, empnid = ''E1'', name = ''A'', interests = []\<rparr>]"
  by code_simp

text \<open>
  Claim C10, the load of a record whose identifier is one blank. The record passes the
  test \<open>emp.empnid\<close>, which sees a non-empty string, and is stored with the trimmed, empty
  identifier.
\<close>

theorem load_stores_empty_identifier:
  "employees (loadEmployees
      \<lparr>savedEmployees = Some
         [Some \<lparr>raw_id = 1, raw_empnid = '' '', raw_name = ''A'', raw_interests = []\<rparr>],
       savedLastId = None\<rparr>)
     = [\<lparr>id_emp = 1, empnid = [], name = ''A'', interests = []\<rparr>]"
  by code_simp

end
